theory Spec2Isabelle
  imports Main "HOL-Library.Word" "HOL-Library.Signed_Division"
begin

section \<open>Machine integers of the target\<close>

text \<open>
  The sketch \<^verbatim>\<open>led_strip_final.ino\<close> targets the Arduino UNO/Nano (AVR): \<^verbatim>\<open>int\<close> is a
  16-bit two's complement integer and \<^verbatim>\<open>unsigned long\<close> a 32-bit unsigned one. Both are
  words here: \<open>+\<close> and \<open>-\<close> wrap around, \<open><\<close> and \<open>\<le>\<close> on words compare unsigned values
  (what C does once one operand is \<^verbatim>\<open>unsigned long\<close>), \<open><s\<close> and \<open>\<le>s\<close> compare signed
  values (what C does on two \<^verbatim>\<open>int\<close>s).
\<close>

type_synonym c_int = "16 word"
type_synonym c_ulong = "32 word"

definition int_div :: "c_int \<Rightarrow> c_int \<Rightarrow> c_int" where
  \<comment> \<open>C's \<^verbatim>\<open>/\<close> on \<^verbatim>\<open>int\<close>: the quotient truncated towards zero.\<close>
  "int_div a b = word_of_int (sint a sdiv sint b)"

definition int_rem :: "c_int \<Rightarrow> c_int \<Rightarrow> c_int" where
  \<comment> \<open>C's \<^verbatim>\<open>%\<close> on \<^verbatim>\<open>int\<close>: the remainder has the sign of the dividend.\<close>
  "int_rem a b = word_of_int (sint a smod sint b)"

definition to_ulong :: "c_int \<Rightarrow> c_ulong" where
  \<comment> \<open>The conversion of an \<^verbatim>\<open>int\<close> operand that meets an \<^verbatim>\<open>unsigned long\<close> one.\<close>
  "to_ulong x = scast x"

section \<open>Constants of the sketch\<close>

definition TIMEOUT :: c_int where "TIMEOUT = 5000"
definition CHECK_TIME :: c_int where "CHECK_TIME = 4000"
definition DEBOUNCE_TIME :: c_int where "DEBOUNCE_TIME = 200"
definition DEBOUNCE_READS :: c_int where "DEBOUNCE_READS = 3"
definition numReadings :: c_int where "numReadings = 3"
definition hysteresis :: c_int where "hysteresis = 20"
definition DEBUG :: bool where "DEBUG = True"
definition LDR_FAST_INTERVAL :: c_int where "LDR_FAST_INTERVAL = 1000"
definition LDR_SLOW_INTERVAL :: c_int where "LDR_SLOW_INTERVAL = 10000"
definition LIGHT_HISTORY_THRESHOLD :: c_int where "LIGHT_HISTORY_THRESHOLD = 5"
definition LDR_LOCKOUT_PERIOD :: c_int where "LDR_LOCKOUT_PERIOD = 6"

section \<open>State\<close>

text \<open>
  The globals of the sketch, under their own names, and two fields for the hardware side:
  \<open>led_pin\<close> is the level of \<^verbatim>\<open>LED_PIN\<close> (what \<^verbatim>\<open>digitalRead(LED_PIN)\<close> returns) and
  \<open>io_log\<close> lists, oldest first, every \<^verbatim>\<open>analogRead(LDR_PIN)\<close> with the value it
  returned and every \<^verbatim>\<open>digitalWrite(LED_PIN, _)\<close> with the level written. The text sent
  to \<^verbatim>\<open>Serial\<close> is not modelled; the stamp \<open>lastSerialTime\<close> that rations it is.
\<close>

datatype event = AnalogRead c_int | LedWrite bool

record ctrl =
  consecutiveLightReadings :: c_int
  currentLdrInterval :: c_int
  motionDetected :: bool
  motionStartTime :: c_ulong
  lastSerialTime :: c_ulong
  lastWatchdogCheck :: c_ulong
  ldrReadings :: "c_int list"
  readIndex :: c_int
  ldrTotal :: c_int
  ldrAverage :: c_int
  ldrThreshold :: c_int
  isDark :: bool
  lastLdrCheck :: c_ulong
  ledsEnabled :: bool
  ledOnTime :: c_ulong
  led_pin :: bool
  io_log :: "event list"

definition power_on :: ctrl where
  \<comment> \<open>The initialisers of the globals; the array is zero-initialised.\<close>
  "power_on = \<lparr>consecutiveLightReadings = 0, currentLdrInterval = LDR_FAST_INTERVAL,
     motionDetected = False, motionStartTime = 0, lastSerialTime = 0, lastWatchdogCheck = 0,
     ldrReadings = replicate (nat (sint numReadings)) 0, readIndex = 0, ldrTotal = 0,
     ldrAverage = 0, ldrThreshold = 0, isDark = False, lastLdrCheck = 0,
     ledsEnabled = False, ledOnTime = 0, led_pin = False, io_log = []\<rparr>"

definition digitalWrite_LED :: "bool \<Rightarrow> ctrl \<Rightarrow> ctrl" where
  "digitalWrite_LED v s = s\<lparr>led_pin := v, io_log := io_log s @ [LedWrite v]\<rparr>"

definition buffer_ok :: "ctrl \<Rightarrow> bool" where
  \<comment> \<open>The ring cursor addresses a slot of the three-slot array. Outside, the C program
     has no defined behaviour; the sketch never leaves it (\<open>buffer_ok_checkLight\<close>).\<close>
  "buffer_ok s \<longleftrightarrow>
     length (ldrReadings s) = nat (sint numReadings) \<and>
     0 \<le> sint (readIndex s) \<and> sint (readIndex s) < sint numReadings"

section \<open>Light classifier\<close>

definition checkLight :: "c_int \<Rightarrow> ctrl \<Rightarrow> ctrl" where
  \<comment> \<open>\<open>r\<close> is what \<^verbatim>\<open>analogRead(LDR_PIN)\<close> returns in this call.\<close>
  "checkLight r s =
     (let i = nat (sint (readIndex s));
          total1 = ldrTotal s - ldrReadings s ! i;
          buf = (ldrReadings s)[i := r];
          total2 = total1 + buf ! i;
          idx = int_rem (readIndex s + 1) numReadings;
          avg = int_div total2 numReadings;
          s1 = s\<lparr>ldrReadings := buf, ldrTotal := total2, readIndex := idx,
                 ldrAverage := avg, io_log := io_log s @ [AnalogRead r]\<rparr>
      in if \<not> isDark s1 \<and> avg \<le>s ldrThreshold s1 - hysteresis then s1\<lparr>isDark := True\<rparr>
         else if isDark s1 \<and> ldrThreshold s1 + hysteresis \<le>s avg then s1\<lparr>isDark := False\<rparr>
         else s1)"

section \<open>Setup\<close>

definition setup_fill :: "(nat \<Rightarrow> c_int) \<Rightarrow> ctrl \<Rightarrow> ctrl" where
  \<comment> \<open>The loop of \<^verbatim>\<open>setup\<close> that fills the array; \<open>rs i\<close> is the reading of round \<open>i\<close>.\<close>
  "setup_fill rs s =
     fold (\<lambda>i s. let buf = (ldrReadings s)[i := rs i]
                 in s\<lparr>ldrReadings := buf, ldrTotal := ldrTotal s + buf ! i,
                      io_log := io_log s @ [AnalogRead (rs i)]\<rparr>)
          [0 ..< nat (sint numReadings)] s"

definition calibrateLDR :: "c_int \<Rightarrow> ctrl \<Rightarrow> ctrl" where
  "calibrateLDR r s = checkLight r (s\<lparr>ldrThreshold := 30\<rparr>)"

definition setup_sketch :: "(nat \<Rightarrow> c_int) \<Rightarrow> c_int \<Rightarrow> ctrl" where
  \<comment> \<open>\<open>rs\<close> are the three readings of the fill loop, \<open>r\<close> the reading of the first
     classification, made by \<^verbatim>\<open>calibrateLDR\<close>.\<close>
  "setup_sketch rs r = calibrateLDR r (setup_fill rs (digitalWrite_LED False power_on))"

section \<open>Motion detector\<close>

definition debounceMotion :: "(nat \<Rightarrow> bool) \<Rightarrow> bool" where
  \<comment> \<open>\<open>pir i\<close> tells whether \<^verbatim>\<open>digitalRead(PIR_PIN)\<close> is \<^verbatim>\<open>HIGH\<close> in round \<open>i\<close> of the loop.\<close>
  "debounceMotion pir =
     (let motionCount = fold (\<lambda>i c. if pir i then c + 1 else c)
                             [0 ..< nat (sint DEBOUNCE_READS)] (0 :: c_int)
      in int_div DEBOUNCE_READS 2 <s motionCount)"

definition debugStamp :: "c_ulong \<Rightarrow> ctrl \<Rightarrow> ctrl" where
  \<comment> \<open>\<^verbatim>\<open>if (DEBUG && (currentMillis - lastSerialTime > 1000)) { println; lastSerialTime = currentMillis; }\<close>\<close>
  "debugStamp now s =
     (if DEBUG \<and> 1000 < now - lastSerialTime s then s\<lparr>lastSerialTime := now\<rparr> else s)"

definition checkMotion :: "c_ulong \<Rightarrow> (nat \<Rightarrow> bool) \<Rightarrow> ctrl \<Rightarrow> ctrl" where
  \<comment> \<open>\<open>now\<close> is what \<^verbatim>\<open>millis()\<close> returns in this call.\<close>
  "checkMotion now pir s =
     (let s1 = (if now < motionStartTime s then s\<lparr>motionStartTime := now\<rparr> else s);
          elapsed = now - motionStartTime s1;
          motionNow =
            (if \<not> motionDetected s1 \<or>
                (motionDetected s1 \<and> to_ulong CHECK_TIME \<le> elapsed \<and> elapsed < to_ulong TIMEOUT)
             then debounceMotion pir else False)
      in if \<not> motionDetected s1 \<and> motionNow
         then debugStamp now (s1\<lparr>motionDetected := True, motionStartTime := now\<rparr>)
         else if motionDetected s1
         then (if to_ulong CHECK_TIME \<le> elapsed \<and> elapsed < to_ulong TIMEOUT \<and> motionNow
               then debugStamp now (s1\<lparr>motionStartTime := now\<rparr>)
               else if to_ulong TIMEOUT \<le> elapsed
               then debugStamp now (s1\<lparr>motionDetected := False\<rparr>)
               else s1)
         else s1)"

section \<open>Watchdog\<close>

definition runWatchdog :: "c_ulong \<Rightarrow> ctrl \<Rightarrow> ctrl" where
  "runWatchdog now s =
     (if 30000 < now - lastWatchdogCheck s
      then (let s1 = s\<lparr>lastWatchdogCheck := now\<rparr>
            in if ledsEnabled s1 \<noteq> led_pin s1
               then digitalWrite_LED (ledsEnabled s1) s1
               else s1)
      else s)"

section \<open>Scheduler\<close>

text \<open>
  What one pass of \<^verbatim>\<open>loop\<close> receives from outside: the three values of \<^verbatim>\<open>millis()\<close> (in
  \<^verbatim>\<open>loop\<close>, in \<^verbatim>\<open>checkMotion\<close> and in \<^verbatim>\<open>runWatchdog\<close>), the analog reading and the
  samples of the motion line. A value is consumed only if the pass makes the call.
\<close>

record tick =
  t_loop :: c_ulong
  ldr_reading :: c_int
  t_motion :: c_ulong
  pir_samples :: "nat \<Rightarrow> bool"
  t_watchdog :: c_ulong

definition inLockoutPeriod :: "c_ulong \<Rightarrow> ctrl \<Rightarrow> bool" where
  "inLockoutPeriod now s \<longleftrightarrow> ledsEnabled s \<and> now - ledOnTime s < to_ulong LDR_LOCKOUT_PERIOD"

definition lightCheckDue :: "c_ulong \<Rightarrow> ctrl \<Rightarrow> bool" where
  "lightCheckDue now s \<longleftrightarrow>
     \<not> inLockoutPeriod now s \<and> to_ulong (currentLdrInterval s) \<le> now - lastLdrCheck s"

definition lightBlock :: "c_ulong \<Rightarrow> c_int \<Rightarrow> ctrl \<Rightarrow> ctrl" where
  \<comment> \<open>The first \<^verbatim>\<open>if\<close> of \<^verbatim>\<open>loop\<close>: light check, adaptive interval, LEDs off when bright.\<close>
  "lightBlock now r s =
     (if lightCheckDue now s
      then (let s1 = checkLight r (s\<lparr>lastLdrCheck := now\<rparr>)
            in if \<not> isDark s1
               then (let s2 = s1\<lparr>consecutiveLightReadings := consecutiveLightReadings s1 + 1\<rparr>;
                         s3 = (if LIGHT_HISTORY_THRESHOLD \<le>s consecutiveLightReadings s2 \<and>
                                  currentLdrInterval s2 = LDR_FAST_INTERVAL
                               then s2\<lparr>currentLdrInterval := LDR_SLOW_INTERVAL\<rparr> else s2)
                     in if ledsEnabled s3
                        then digitalWrite_LED False (s3\<lparr>ledsEnabled := False\<rparr>)
                        else s3)
               else (let s2 = s1\<lparr>consecutiveLightReadings := 0\<rparr>
                     in if currentLdrInterval s2 = LDR_SLOW_INTERVAL
                        then s2\<lparr>currentLdrInterval := LDR_FAST_INTERVAL\<rparr>
                        else s2))
      else s)"

definition ledBlock :: "c_ulong \<Rightarrow> ctrl \<Rightarrow> ctrl" where
  \<comment> \<open>The actuator step inside \<^verbatim>\<open>if (isDark)\<close>; \<open>now\<close> is \<^verbatim>\<open>currentMillis\<close> of \<^verbatim>\<open>loop\<close>.\<close>
  "ledBlock now s =
     (let newLedState = motionDetected s
      in if ledsEnabled s \<noteq> newLedState
         then (let s1 = digitalWrite_LED newLedState (s\<lparr>ledsEnabled := newLedState\<rparr>)
               in if ledsEnabled s1 then s1\<lparr>ledOnTime := now\<rparr> else s1)
         else s)"

definition motionBlock :: "tick \<Rightarrow> ctrl \<Rightarrow> ctrl" where
  "motionBlock t s =
     (if isDark s then ledBlock (t_loop t) (checkMotion (t_motion t) (pir_samples t) s) else s)"

definition loop :: "tick \<Rightarrow> ctrl \<Rightarrow> ctrl" where
  "loop t s = runWatchdog (t_watchdog t) (motionBlock t (lightBlock (t_loop t) (ldr_reading t) s))"

fun exec :: "tick list \<Rightarrow> ctrl \<Rightarrow> ctrl" where
  "exec [] s = s"
| "exec (t # ts) s = exec ts (loop t s)"

section \<open>Observers used to state the properties\<close>

fun analog_readings :: "event list \<Rightarrow> c_int list" where
  \<comment> \<open>The values returned by \<^verbatim>\<open>analogRead\<close>, oldest first.\<close>
  "analog_readings [] = []"
| "analog_readings (AnalogRead v # es) = v # analog_readings es"
| "analog_readings (LedWrite b # es) = analog_readings es"

fun led_writes :: "event list \<Rightarrow> bool list" where
  \<comment> \<open>The levels written to \<^verbatim>\<open>LED_PIN\<close>, oldest first.\<close>
  "led_writes [] = []"
| "led_writes (AnalogRead v # es) = led_writes es"
| "led_writes (LedWrite b # es) = b # led_writes es"

definition new_events :: "ctrl \<Rightarrow> ctrl \<Rightarrow> event list" where
  \<comment> \<open>What a step from \<open>s\<close> to \<open>s'\<close> added to the log.\<close>
  "new_events s s' = drop (length (io_log s)) (io_log s')"

definition last_n :: "nat \<Rightarrow> 'a list \<Rightarrow> 'a list" where
  "last_n n xs = drop (length xs - n) xs"

definition adc_range :: "c_int \<Rightarrow> bool" where
  \<comment> \<open>The range of the 10-bit converter behind \<^verbatim>\<open>analogRead\<close> on the target.\<close>
  "adc_range v \<longleftrightarrow> 0 \<le> sint v \<and> sint v \<le> 1023"

definition ring_window :: "ctrl \<Rightarrow> c_int list" where
  \<comment> \<open>The array read from the cursor on: the oldest stored reading first.\<close>
  "ring_window s = rotate (nat (sint (readIndex s))) (ldrReadings s)"

definition ring_inv :: "ctrl \<Rightarrow> bool" where
  "ring_inv s \<longleftrightarrow>
     buffer_ok s \<and> ldrTotal s = sum_list (ldrReadings s) \<and>
     ring_window s = last_n 3 (analog_readings (io_log s)) \<and>
     (\<forall>v \<in> set (analog_readings (io_log s)). adc_range v)"

definition avg_inv :: "ctrl \<Rightarrow> bool" where
  "avg_inv s \<longleftrightarrow> ring_inv s \<and> ldrAverage s = int_div (ldrTotal s) numReadings"

definition spec_average :: "int list \<Rightarrow> int" where
  \<comment> \<open>The average as the specification words it: after the insertions \<open>xs\<close>, the mean
     of the last \<open>min (length xs) 3\<close> of them (the quotient rounded down).\<close>
  "spec_average xs = sum_list (last_n (min (length xs) 3) xs) div int (min (length xs) 3)"

fun motion_calls :: "(c_ulong \<times> (nat \<Rightarrow> bool)) list \<Rightarrow> ctrl \<Rightarrow> ctrl" where
  \<comment> \<open>Successive calls of \<^verbatim>\<open>checkMotion\<close>; each comes with its \<^verbatim>\<open>millis()\<close> value and
     the samples its debounce would read.\<close>
  "motion_calls [] s = s"
| "motion_calls (c # cs) s = motion_calls cs (checkMotion (fst c) (snd c) s)"

definition streak_step :: "tick \<Rightarrow> ctrl \<Rightarrow> nat \<Rightarrow> nat" where
  \<comment> \<open>How one pass of \<^verbatim>\<open>loop\<close> changes the count \<open>n\<close> of non-dark classifications made
     in fast mode since the last dark one: a dark classification clears it, a non-dark
     one made while the interval is the fast one adds one.\<close>
  "streak_step t s n =
     (if lightCheckDue (t_loop t) s
      then (if isDark (lightBlock (t_loop t) (ldr_reading t) s) then 0
            else if currentLdrInterval s = LDR_FAST_INTERVAL then n + 1 else n)
      else n)"

fun fast_light_streak :: "tick list \<Rightarrow> ctrl \<Rightarrow> nat \<Rightarrow> nat" where
  \<comment> \<open>That count at the end of the passes \<open>ts\<close> started in state \<open>s\<close> with count \<open>n\<close>.\<close>
  "fast_light_streak [] s n = n"
| "fast_light_streak (t # ts) s n = fast_light_streak ts (loop t s) (streak_step t s n)"

definition cadence_inv :: "ctrl \<Rightarrow> nat \<Rightarrow> bool" where
  "cadence_inv s n \<longleftrightarrow>
     (currentLdrInterval s = LDR_FAST_INTERVAL \<and> consecutiveLightReadings s = of_nat n \<and> n < 5) \<or>
     (currentLdrInterval s = LDR_SLOW_INTERVAL \<and> 5 \<le> n \<and> \<not> isDark s)"

definition led_inv :: "ctrl \<Rightarrow> bool" where
  "led_inv s \<longleftrightarrow> (ledsEnabled s \<longrightarrow> isDark s) \<and> led_pin s = ledsEnabled s"

definition steady :: "'a \<Rightarrow> nat \<Rightarrow> 'a" where
  \<comment> \<open>An input line that shows the same value in every round.\<close>
  "steady v i = v"

definition tick_at :: "c_ulong \<Rightarrow> c_int \<Rightarrow> bool \<Rightarrow> tick" where
  \<comment> \<open>A pass in which \<^verbatim>\<open>millis()\<close> returns \<open>now\<close> at each of its three calls, the light
     sensor reads \<open>v\<close> and the motion line steadily shows \<open>m\<close>.\<close>
  "tick_at now v m =
     \<lparr>t_loop = now, ldr_reading = v, t_motion = now, pir_samples = steady m, t_watchdog = now\<rparr>"

section \<open>Arithmetic of the machine integers\<close>

lemmas c_arith =
  int_div_def int_rem_def signed_divide_int_def signed_modulo_int_def numReadings_def

lemma to_ulong_consts:
  "to_ulong TIMEOUT = 5000" "to_ulong CHECK_TIME = 4000" "to_ulong LDR_LOCKOUT_PERIOD = 6"
  "to_ulong LDR_FAST_INTERVAL = 1000" "to_ulong LDR_SLOW_INTERVAL = 10000"
  by (simp_all add: to_ulong_def TIMEOUT_def CHECK_TIME_def LDR_LOCKOUT_PERIOD_def
        LDR_FAST_INTERVAL_def LDR_SLOW_INTERVAL_def)

lemma sint_minus_hysteresis:
  fixes T :: c_int
  assumes "- 32748 \<le> sint T"
  shows "sint (T - hysteresis) = sint T - 20"
proof -
  have "sint T < 2 ^ 15" using sint_lt [of T] by simp
  with assms have "signed_take_bit 15 (sint T - 20) = sint T - 20"
    by (intro signed_take_bit_int_eq_self) simp_all
  then show ?thesis by (simp add: sint_word_diff hysteresis_def)
qed

lemma sint_plus_hysteresis:
  fixes T :: c_int
  assumes "sint T \<le> 32747"
  shows "sint (T + hysteresis) = sint T + 20"
proof -
  have "- (2 ^ 15) \<le> sint T" using sint_ge [of T] by simp
  with assms have "signed_take_bit 15 (sint T + 20) = sint T + 20"
    by (intro signed_take_bit_int_eq_self) simp_all
  then show ?thesis by (simp add: sint_word_add hysteresis_def)
qed

lemma small_index_cases:
  fixes w :: c_int
  assumes "0 \<le> sint w" and "sint w < 3"
  shows "w = 0 \<or> w = 1 \<or> w = 2"
proof -
  have w: "w = word_of_int (sint w)" by simp
  from assms have "sint w = 0 \<or> sint w = 1 \<or> sint w = 2" by arith
  then show ?thesis
  proof (elim disjE)
    assume "sint w = 0" with w show ?thesis by simp
  next
    assume "sint w = 1" with w show ?thesis by simp
  next
    assume "sint w = 2" with w show ?thesis by (metis word_of_int_numeral)
  qed
qed

lemma sint_sum3:
  fixes a b c :: c_int
  assumes "adc_range a" "adc_range b" "adc_range c"
  shows "sint (a + b + c) = sint a + sint b + sint c"
proof -
  from assms have ab: "sint (a + b) = sint a + sint b"
    by (simp add: sint_word_add adc_range_def signed_take_bit_int_eq_self)
  from assms show ?thesis
    by (simp add: sint_word_add [of "a + b" c] ab adc_range_def signed_take_bit_int_eq_self)
qed

lemma sint_int_div3:
  fixes x :: c_int
  assumes "0 \<le> sint x" and "sint x \<le> 3069"
  shows "sint (int_div x numReadings) = sint x div 3"
proof -
  from assms have q: "sint x sdiv 3 = sint x div 3"
    by (simp add: signed_divide_int_def sgn_if)
  from assms have "0 \<le> sint x div 3" "sint x div 3 < 2 ^ 15" by simp_all
  then have "signed_take_bit 15 (sint x div 3) = sint x div 3"
    by (intro signed_take_bit_int_eq_self) simp_all
  then show ?thesis
    by (simp add: int_div_def numReadings_def q sint_sbintrunc')
qed

section \<open>The light classifier\<close>

lemma checkLight_ring_fields:
  "ldrReadings (checkLight r s) = (ldrReadings s)[nat (sint (readIndex s)) := r]"
  "ldrTotal (checkLight r s) =
     ldrTotal s - ldrReadings s ! nat (sint (readIndex s))
       + (ldrReadings s)[nat (sint (readIndex s)) := r] ! nat (sint (readIndex s))"
  "readIndex (checkLight r s) = int_rem (readIndex s + 1) numReadings"
  "ldrAverage (checkLight r s) = int_div (ldrTotal (checkLight r s)) numReadings"
  "io_log (checkLight r s) = io_log s @ [AnalogRead r]"
  by (simp_all add: checkLight_def Let_def)

lemma checkLight_frame:
  "ldrThreshold (checkLight r s) = ldrThreshold s"
  "consecutiveLightReadings (checkLight r s) = consecutiveLightReadings s"
  "currentLdrInterval (checkLight r s) = currentLdrInterval s"
  "motionDetected (checkLight r s) = motionDetected s"
  "motionStartTime (checkLight r s) = motionStartTime s"
  "lastSerialTime (checkLight r s) = lastSerialTime s"
  "lastWatchdogCheck (checkLight r s) = lastWatchdogCheck s"
  "lastLdrCheck (checkLight r s) = lastLdrCheck s"
  "ledsEnabled (checkLight r s) = ledsEnabled s"
  "ledOnTime (checkLight r s) = ledOnTime s"
  "led_pin (checkLight r s) = led_pin s"
  by (simp_all add: checkLight_def Let_def)

lemma checkLight_isDark:
  "isDark (checkLight r s) =
     (if isDark s then \<not> ldrThreshold s + hysteresis \<le>s ldrAverage (checkLight r s)
      else ldrAverage (checkLight r s) \<le>s ldrThreshold s - hysteresis)"
  by (simp add: checkLight_def Let_def)

lemma analog_readings_append [simp]:
  "analog_readings (es @ fs) = analog_readings es @ analog_readings fs"
  by (induction es rule: analog_readings.induct) simp_all

lemma led_writes_append [simp]:
  "led_writes (es @ fs) = led_writes es @ led_writes fs"
  by (induction es rule: led_writes.induct) simp_all

lemma length3_cases:
  assumes "length xs = 3"
  obtains a b c where "xs = [a, b, c]"
  using assms by (auto simp add: numeral_3_eq_3 length_Suc_conv)

lemma last_n_snoc:
  assumes "length (last_n 3 ys) = 3"
  shows "last_n 3 (ys @ [r]) = tl (last_n 3 ys) @ [r]"
proof -
  from assms have "3 \<le> length ys" by (simp add: last_n_def)
  then have "length ys - 2 = Suc (length ys - 3)" by arith
  then show ?thesis
    by (simp add: last_n_def drop_Suc tl_drop)
qed

lemma buffer_ok_shape:
  assumes "buffer_ok s"
  obtains a b c where "ldrReadings s = [a, b, c]"
    and "readIndex s = 0 \<or> readIndex s = 1 \<or> readIndex s = 2"
proof -
  from assms have "length (ldrReadings s) = 3" "0 \<le> sint (readIndex s)" "sint (readIndex s) < 3"
    by (simp_all add: buffer_ok_def numReadings_def)
  then show ?thesis
    using that small_index_cases [of "readIndex s"] by (auto elim: length3_cases)
qed

lemma buffer_ok_checkLight:
  assumes "buffer_ok s"
  shows "buffer_ok (checkLight r s)"
proof -
  from assms obtain a b c where "ldrReadings s = [a, b, c]"
    and "readIndex s = 0 \<or> readIndex s = 1 \<or> readIndex s = 2"
    by (rule buffer_ok_shape)
  then show ?thesis
    by (auto simp add: buffer_ok_def checkLight_ring_fields c_arith)
qed

lemma ring_inv_checkLight:
  assumes "ring_inv s" and "adc_range r"
  shows "ring_inv (checkLight r s)"
proof -
  let ?ys = "analog_readings (io_log s)"
  from assms(1) have ok: "buffer_ok s" and tot: "ldrTotal s = sum_list (ldrReadings s)"
    and win: "ring_window s = last_n 3 ?ys" and rng: "\<forall>v \<in> set ?ys. adc_range v"
    by (simp_all add: ring_inv_def)
  from ok obtain a b c where buf: "ldrReadings s = [a, b, c]"
    and idx: "readIndex s = 0 \<or> readIndex s = 1 \<or> readIndex s = 2"
    by (rule buffer_ok_shape)
  from win buf have "length (last_n 3 ?ys) = 3"
    by (simp add: ring_window_def flip: win)
  then have snoc: "last_n 3 (?ys @ [r]) = tl (ring_window s) @ [r]"
    by (simp add: last_n_snoc win)
  have 1: "buffer_ok (checkLight r s)"
    using ok by (rule buffer_ok_checkLight)
  have 2: "ldrTotal (checkLight r s) = sum_list (ldrReadings (checkLight r s))"
    using idx buf tot by (auto simp add: checkLight_ring_fields)
  have 3: "ring_window (checkLight r s) = tl (ring_window s) @ [r]"
    using idx buf
    by (auto simp add: ring_window_def checkLight_ring_fields c_arith numeral_2_eq_2)
  show ?thesis
    using 1 2 3 snoc rng assms(2)
    by (simp add: ring_inv_def checkLight_ring_fields)
qed

lemma avg_inv_checkLight:
  assumes "ring_inv s" and "adc_range r"
  shows "avg_inv (checkLight r s)"
  using ring_inv_checkLight [OF assms] by (simp add: avg_inv_def checkLight_ring_fields)

lemma avg_inv_average:
  assumes "avg_inv s"
  shows "sint (ldrAverage s) =
           sum_list (map sint (last_n 3 (analog_readings (io_log s)))) div 3"
proof -
  let ?ys = "analog_readings (io_log s)"
  from assms have ok: "buffer_ok s" and tot: "ldrTotal s = sum_list (ldrReadings s)"
    and win: "ring_window s = last_n 3 ?ys" and rng: "\<forall>v \<in> set ?ys. adc_range v"
    and avg: "ldrAverage s = int_div (ldrTotal s) numReadings"
    by (simp_all add: ring_inv_def avg_inv_def)
  from ok obtain a b c where buf: "ldrReadings s = [a, b, c]"
    and idx: "readIndex s = 0 \<or> readIndex s = 1 \<or> readIndex s = 2"
    by (rule buffer_ok_shape)
  have "set (last_n 3 ?ys) \<subseteq> set ?ys" by (simp add: last_n_def set_drop_subset)
  with rng win have "\<forall>v \<in> set (ring_window s). adc_range v" by auto
  with buf idx have abc: "adc_range a" "adc_range b" "adc_range c"
    by (auto simp add: ring_window_def numeral_2_eq_2)
  then have sum: "sint (ldrTotal s) = sint a + sint b + sint c"
    using sint_sum3 [of a b c] by (simp add: tot buf add.assoc)
  with abc have "sint (ldrAverage s) = (sint a + sint b + sint c) div 3"
    by (simp add: avg sint_int_div3 adc_range_def)
  moreover from buf idx have "sum_list (map sint (ring_window s)) = sint a + sint b + sint c"
    by (auto simp add: ring_window_def numeral_2_eq_2)
  ultimately show ?thesis by (simp add: win)
qed

lemma avg_inv_cong:
  assumes "ldrReadings s' = ldrReadings s" and "readIndex s' = readIndex s"
    and "ldrTotal s' = ldrTotal s" and "ldrAverage s' = ldrAverage s"
    and "analog_readings (io_log s') = analog_readings (io_log s)"
  shows "avg_inv s' = avg_inv s"
  by (simp add: avg_inv_def ring_inv_def buffer_ok_def ring_window_def assms)

lemma ring_inv_setup_fill:
  assumes "adc_range (rs 0)" "adc_range (rs 1)" "adc_range (rs 2)"
  shows "ring_inv ((setup_fill rs (digitalWrite_LED False power_on))\<lparr>ldrThreshold := 30\<rparr>)"
  using assms
  by (simp add: setup_fill_def digitalWrite_LED_def power_on_def numReadings_def upt_rec
      ring_inv_def buffer_ok_def ring_window_def last_n_def numeral_2_eq_2 numeral_3_eq_3)

lemma avg_inv_setup:
  assumes "adc_range (rs 0)" "adc_range (rs 1)" "adc_range (rs 2)" "adc_range r"
  shows "avg_inv (setup_sketch rs r)"
  unfolding setup_sketch_def calibrateLDR_def
  using ring_inv_setup_fill [OF assms(1-3)] assms(4) by (rule avg_inv_checkLight)

lemma checkMotion_frame:
  "consecutiveLightReadings (checkMotion now p s) = consecutiveLightReadings s"
  "currentLdrInterval (checkMotion now p s) = currentLdrInterval s"
  "lastWatchdogCheck (checkMotion now p s) = lastWatchdogCheck s"
  "ldrReadings (checkMotion now p s) = ldrReadings s"
  "readIndex (checkMotion now p s) = readIndex s"
  "ldrTotal (checkMotion now p s) = ldrTotal s"
  "ldrAverage (checkMotion now p s) = ldrAverage s"
  "ldrThreshold (checkMotion now p s) = ldrThreshold s"
  "isDark (checkMotion now p s) = isDark s"
  "lastLdrCheck (checkMotion now p s) = lastLdrCheck s"
  "ledsEnabled (checkMotion now p s) = ledsEnabled s"
  "ledOnTime (checkMotion now p s) = ledOnTime s"
  "led_pin (checkMotion now p s) = led_pin s"
  "io_log (checkMotion now p s) = io_log s"
  by (simp_all add: checkMotion_def debugStamp_def Let_def)

lemma ledBlock_frame:
  "consecutiveLightReadings (ledBlock now s) = consecutiveLightReadings s"
  "currentLdrInterval (ledBlock now s) = currentLdrInterval s"
  "motionDetected (ledBlock now s) = motionDetected s"
  "motionStartTime (ledBlock now s) = motionStartTime s"
  "lastSerialTime (ledBlock now s) = lastSerialTime s"
  "lastWatchdogCheck (ledBlock now s) = lastWatchdogCheck s"
  "ldrReadings (ledBlock now s) = ldrReadings s"
  "readIndex (ledBlock now s) = readIndex s"
  "ldrTotal (ledBlock now s) = ldrTotal s"
  "ldrAverage (ledBlock now s) = ldrAverage s"
  "ldrThreshold (ledBlock now s) = ldrThreshold s"
  "isDark (ledBlock now s) = isDark s"
  "lastLdrCheck (ledBlock now s) = lastLdrCheck s"
  by (simp_all add: ledBlock_def digitalWrite_LED_def Let_def)

lemma ledBlock_effect:
  "ledsEnabled (ledBlock now s) = motionDetected s"
  "led_pin (ledBlock now s) = (if ledsEnabled s \<noteq> motionDetected s then motionDetected s else led_pin s)"
  "io_log (ledBlock now s) =
     (if ledsEnabled s \<noteq> motionDetected s then io_log s @ [LedWrite (motionDetected s)] else io_log s)"
  "ledOnTime (ledBlock now s) =
     (if \<not> ledsEnabled s \<and> motionDetected s then now else ledOnTime s)"
  by (auto simp add: ledBlock_def digitalWrite_LED_def Let_def)

lemma motionBlock_frame:
  "consecutiveLightReadings (motionBlock t s) = consecutiveLightReadings s"
  "currentLdrInterval (motionBlock t s) = currentLdrInterval s"
  "lastWatchdogCheck (motionBlock t s) = lastWatchdogCheck s"
  "ldrReadings (motionBlock t s) = ldrReadings s"
  "readIndex (motionBlock t s) = readIndex s"
  "ldrTotal (motionBlock t s) = ldrTotal s"
  "ldrAverage (motionBlock t s) = ldrAverage s"
  "ldrThreshold (motionBlock t s) = ldrThreshold s"
  "isDark (motionBlock t s) = isDark s"
  "lastLdrCheck (motionBlock t s) = lastLdrCheck s"
  "analog_readings (io_log (motionBlock t s)) = analog_readings (io_log s)"
  by (simp_all add: motionBlock_def ledBlock_frame checkMotion_frame ledBlock_effect)

lemma runWatchdog_frame:
  "consecutiveLightReadings (runWatchdog now s) = consecutiveLightReadings s"
  "currentLdrInterval (runWatchdog now s) = currentLdrInterval s"
  "motionDetected (runWatchdog now s) = motionDetected s"
  "motionStartTime (runWatchdog now s) = motionStartTime s"
  "lastSerialTime (runWatchdog now s) = lastSerialTime s"
  "ldrReadings (runWatchdog now s) = ldrReadings s"
  "readIndex (runWatchdog now s) = readIndex s"
  "ldrTotal (runWatchdog now s) = ldrTotal s"
  "ldrAverage (runWatchdog now s) = ldrAverage s"
  "ldrThreshold (runWatchdog now s) = ldrThreshold s"
  "isDark (runWatchdog now s) = isDark s"
  "lastLdrCheck (runWatchdog now s) = lastLdrCheck s"
  "ledsEnabled (runWatchdog now s) = ledsEnabled s"
  "ledOnTime (runWatchdog now s) = ledOnTime s"
  "analog_readings (io_log (runWatchdog now s)) = analog_readings (io_log s)"
  by (simp_all add: runWatchdog_def digitalWrite_LED_def Let_def)

lemma lightBlock_idle: "\<not> lightCheckDue now s \<Longrightarrow> lightBlock now r s = s"
  by (simp add: lightBlock_def)

lemma lightBlock_ring:
  assumes "lightCheckDue now s"
  shows "ldrReadings (lightBlock now r s) = ldrReadings (checkLight r s)"
    and "readIndex (lightBlock now r s) = readIndex (checkLight r s)"
    and "ldrTotal (lightBlock now r s) = ldrTotal (checkLight r s)"
    and "ldrAverage (lightBlock now r s) = ldrAverage (checkLight r s)"
    and "analog_readings (io_log (lightBlock now r s)) = analog_readings (io_log (checkLight r s))"
    and "isDark (lightBlock now r s) = isDark (checkLight r s)"
  using assms
  by (simp_all add: lightBlock_def Let_def checkLight_def digitalWrite_LED_def)

lemma avg_inv_lightBlock:
  assumes "avg_inv s" and "adc_range r"
  shows "avg_inv (lightBlock now r s)"
proof (cases "lightCheckDue now s")
  case True
  from assms have "avg_inv (checkLight r s)"
    by (intro avg_inv_checkLight) (simp_all add: avg_inv_def)
  then show ?thesis
    by (simp add: avg_inv_cong [of "lightBlock now r s" "checkLight r s"] lightBlock_ring [OF True])
next
  case False
  with assms show ?thesis by (simp add: lightBlock_idle)
qed

lemma avg_inv_loop:
  assumes "avg_inv s" and "adc_range (ldr_reading t)"
  shows "avg_inv (loop t s)"
proof -
  have "avg_inv (loop t s) = avg_inv (lightBlock (t_loop t) (ldr_reading t) s)"
    unfolding loop_def
    by (rule avg_inv_cong) (simp_all add: runWatchdog_frame motionBlock_frame)
  with assms show ?thesis by (simp add: avg_inv_lightBlock)
qed

lemma avg_inv_exec:
  assumes "avg_inv s" and "\<forall>t \<in> set ts. adc_range (ldr_reading t)"
  shows "avg_inv (exec ts s)"
  using assms by (induction ts arbitrary: s) (simp_all add: avg_inv_loop)

section \<open>The motion detector\<close>

lemma checkMotion_start:
  assumes "\<not> motionDetected s" and "debounceMotion p"
  shows "motionDetected (checkMotion now p s)" and "motionStartTime (checkMotion now p s) = now"
  using assms by (simp_all add: checkMotion_def debugStamp_def Let_def)

lemma checkMotion_active:
  assumes "motionDetected s" and "motionStartTime s \<le> now"
  shows "motionDetected (checkMotion now p s) \<longleftrightarrow> now - motionStartTime s < 5000"
  using assms
  by (auto simp add: checkMotion_def debugStamp_def Let_def to_ulong_consts not_less)

lemma checkMotion_no_extension:
  assumes "motionDetected s" and "motionStartTime s \<le> now"
    and "\<not> (4000 \<le> now - motionStartTime s \<and> debounceMotion p)"
  shows "motionStartTime (checkMotion now p s) = motionStartTime s"
  using assms
  by (auto simp add: checkMotion_def debugStamp_def Let_def to_ulong_consts not_less)

lemma motion_calls_active:
  assumes "motionDetected s"
    and "\<forall>c \<in> set cs. motionStartTime s \<le> fst c \<and> fst c - motionStartTime s < 5000 \<and>
           \<not> (4000 \<le> fst c - motionStartTime s \<and> debounceMotion (snd c))"
  shows "motionDetected (motion_calls cs s) \<and> motionStartTime (motion_calls cs s) = motionStartTime s"
  using assms
proof (induction cs arbitrary: s)
  case Nil
  then show ?case by simp
next
  case (Cons c cs)
  let ?s = "checkMotion (fst c) (snd c) s"
  from Cons.prems have c: "motionStartTime s \<le> fst c" "fst c - motionStartTime s < 5000"
    "\<not> (4000 \<le> fst c - motionStartTime s \<and> debounceMotion (snd c))"
    by simp_all
  from Cons.prems(1) c have 1: "motionDetected ?s"
    by (simp add: checkMotion_active)
  from Cons.prems(1) c have 2: "motionStartTime ?s = motionStartTime s"
    by (intro checkMotion_no_extension) simp_all
  from Cons.prems(2) have "\<forall>c \<in> set cs. motionStartTime ?s \<le> fst c \<and> fst c - motionStartTime ?s < 5000 \<and>
           \<not> (4000 \<le> fst c - motionStartTime ?s \<and> debounceMotion (snd c))"
    by (simp add: 2)
  from Cons.IH [OF 1 this] show ?case by (simp add: 2)
qed

section \<open>Watchdog, actuator step and the log of a pass\<close>

lemma new_events_append [simp]: "io_log s' = io_log s @ es \<Longrightarrow> new_events s s' = es"
  by (simp add: new_events_def)

lemma new_events_same [simp]: "new_events s s = []"
  by (simp add: new_events_def)

lemma runWatchdog_log:
  "io_log (runWatchdog now s) = io_log s @
     (if 30000 < now - lastWatchdogCheck s \<and> ledsEnabled s \<noteq> led_pin s
      then [LedWrite (ledsEnabled s)] else [])"
  by (simp add: runWatchdog_def digitalWrite_LED_def Let_def)

lemma runWatchdog_pin:
  "led_pin (runWatchdog now s) =
     (if 30000 < now - lastWatchdogCheck s then ledsEnabled s else led_pin s)"
  by (auto simp add: runWatchdog_def digitalWrite_LED_def Let_def)

lemma runWatchdog_idle:
  "\<not> 30000 < now - lastWatchdogCheck s \<Longrightarrow> runWatchdog now s = s"
  by (simp add: runWatchdog_def)

lemma runWatchdog_stamp:
  "lastWatchdogCheck (runWatchdog now s) =
     (if 30000 < now - lastWatchdogCheck s then now else lastWatchdogCheck s)"
  by (simp add: runWatchdog_def digitalWrite_LED_def Let_def)

lemma ledBlock_elided: "ledsEnabled s = motionDetected s \<Longrightarrow> ledBlock now s = s"
  by (simp add: ledBlock_def)

lemma lightBlock_log:
  "io_log (lightBlock now r s) = io_log s @
     (if lightCheckDue now s
      then AnalogRead r # (if ledsEnabled s \<and> \<not> isDark (checkLight r s) then [LedWrite False] else [])
      else [])"
  by (simp add: lightBlock_def Let_def checkLight_def digitalWrite_LED_def)

lemma motionBlock_log:
  "io_log (motionBlock t s) = io_log s @
     (if isDark s \<and> ledsEnabled s \<noteq> motionDetected (checkMotion (t_motion t) (pir_samples t) s)
      then [LedWrite (motionDetected (checkMotion (t_motion t) (pir_samples t) s))] else [])"
  by (simp add: motionBlock_def ledBlock_effect checkMotion_frame)

lemma loop_log:
  "\<exists>es. io_log (loop t s) = io_log s @ es \<and>
     analog_readings es = (if lightCheckDue (t_loop t) s then [ldr_reading t] else [])"
  by (simp add: loop_def runWatchdog_log motionBlock_log lightBlock_log)

lemma loop_analog_reads:
  "analog_readings (new_events s (loop t s)) =
     (if lightCheckDue (t_loop t) s then [ldr_reading t] else [])"
  using loop_log [of t s] by (auto simp del: analog_readings_append)

section \<open>Invariants of the scheduler\<close>

lemma lightBlock_cadence:
  assumes "lightCheckDue now s"
  shows "consecutiveLightReadings (lightBlock now r s) =
           (if isDark (lightBlock now r s) then 0 else consecutiveLightReadings s + 1)"
    and "currentLdrInterval (lightBlock now r s) =
           (if isDark (lightBlock now r s)
            then (if currentLdrInterval s = LDR_SLOW_INTERVAL then LDR_FAST_INTERVAL
                  else currentLdrInterval s)
            else (if LIGHT_HISTORY_THRESHOLD \<le>s consecutiveLightReadings s + 1 \<and>
                     currentLdrInterval s = LDR_FAST_INTERVAL
                  then LDR_SLOW_INTERVAL else currentLdrInterval s))"
  using assms
  by (simp_all add: lightBlock_def Let_def checkLight_frame digitalWrite_LED_def)

lemma threshold_reached:
  assumes "n < 5"
  shows "LIGHT_HISTORY_THRESHOLD \<le>s (of_nat n :: c_int) + 1 \<longleftrightarrow> n = 4"
proof -
  from assms have "n = 0 \<or> n = 1 \<or> n = 2 \<or> n = 3 \<or> n = 4" by arith
  then show ?thesis
    by (elim disjE) (simp_all add: LIGHT_HISTORY_THRESHOLD_def word_sle_eq)
qed

lemma intervals_differ: "LDR_FAST_INTERVAL \<noteq> LDR_SLOW_INTERVAL"
  by (simp add: LDR_FAST_INTERVAL_def LDR_SLOW_INTERVAL_def)

lemma cadence_inv_lightBlock:
  assumes "cadence_inv s n"
  shows "cadence_inv (lightBlock (t_loop t) (ldr_reading t) s) (streak_step t s n)"
proof (cases "lightCheckDue (t_loop t) s")
  case True
  from assms show ?thesis
    unfolding cadence_inv_def
  proof (elim disjE conjE)
    assume "currentLdrInterval s = LDR_FAST_INTERVAL" "consecutiveLightReadings s = of_nat n" "n < 5"
    then show "(currentLdrInterval (lightBlock (t_loop t) (ldr_reading t) s) = LDR_FAST_INTERVAL \<and>
        consecutiveLightReadings (lightBlock (t_loop t) (ldr_reading t) s) = of_nat (streak_step t s n) \<and>
        streak_step t s n < 5) \<or>
       (currentLdrInterval (lightBlock (t_loop t) (ldr_reading t) s) = LDR_SLOW_INTERVAL \<and>
        5 \<le> streak_step t s n \<and> \<not> isDark (lightBlock (t_loop t) (ldr_reading t) s))"
      using True intervals_differ
      by (auto simp add: lightBlock_cadence streak_step_def threshold_reached)
  next
    assume "currentLdrInterval s = LDR_SLOW_INTERVAL" "5 \<le> n" "\<not> isDark s"
    then show "(currentLdrInterval (lightBlock (t_loop t) (ldr_reading t) s) = LDR_FAST_INTERVAL \<and>
        consecutiveLightReadings (lightBlock (t_loop t) (ldr_reading t) s) = of_nat (streak_step t s n) \<and>
        streak_step t s n < 5) \<or>
       (currentLdrInterval (lightBlock (t_loop t) (ldr_reading t) s) = LDR_SLOW_INTERVAL \<and>
        5 \<le> streak_step t s n \<and> \<not> isDark (lightBlock (t_loop t) (ldr_reading t) s))"
      using True intervals_differ
      by (auto simp add: lightBlock_cadence streak_step_def)
  qed
next
  case False
  with assms show ?thesis by (simp add: lightBlock_idle streak_step_def)
qed

lemma cadence_inv_cong:
  assumes "currentLdrInterval s' = currentLdrInterval s"
    and "consecutiveLightReadings s' = consecutiveLightReadings s" and "isDark s' = isDark s"
  shows "cadence_inv s' n = cadence_inv s n"
  by (simp add: cadence_inv_def assms)

lemma cadence_inv_loop:
  assumes "cadence_inv s n"
  shows "cadence_inv (loop t s) (streak_step t s n)"
proof -
  have "cadence_inv (loop t s) (streak_step t s n) =
        cadence_inv (lightBlock (t_loop t) (ldr_reading t) s) (streak_step t s n)"
    unfolding loop_def
    by (rule cadence_inv_cong) (simp_all add: runWatchdog_frame motionBlock_frame)
  with assms show ?thesis by (simp add: cadence_inv_lightBlock)
qed

lemma cadence_inv_exec:
  assumes "cadence_inv s n"
  shows "cadence_inv (exec ts s) (fast_light_streak ts s n)"
  using assms by (induction ts arbitrary: s n) (simp_all add: cadence_inv_loop)

lemma setup_sketch_fields:
  "consecutiveLightReadings (setup_sketch rs r) = 0"
  "currentLdrInterval (setup_sketch rs r) = LDR_FAST_INTERVAL"
  "\<not> ledsEnabled (setup_sketch rs r)"
  "\<not> led_pin (setup_sketch rs r)"
  "\<not> motionDetected (setup_sketch rs r)"
  by (simp_all add: setup_sketch_def calibrateLDR_def checkLight_frame setup_fill_def
      numReadings_def upt_rec digitalWrite_LED_def power_on_def)

lemma cadence_inv_setup: "cadence_inv (setup_sketch rs r) 0"
  by (simp add: cadence_inv_def setup_sketch_fields)

lemma led_inv_lightBlock: "led_inv s \<Longrightarrow> led_inv (lightBlock now r s)"
  by (simp add: led_inv_def lightBlock_def Let_def checkLight_frame digitalWrite_LED_def)

lemma led_inv_motionBlock: "led_inv s \<Longrightarrow> led_inv (motionBlock t s)"
  by (cases "isDark s")
    (auto simp add: led_inv_def motionBlock_def ledBlock_effect ledBlock_frame checkMotion_frame)

lemma led_inv_runWatchdog: "led_inv s \<Longrightarrow> led_inv (runWatchdog now s)"
  by (auto simp add: led_inv_def runWatchdog_def Let_def)

lemma led_inv_loop: "led_inv s \<Longrightarrow> led_inv (loop t s)"
  by (simp add: loop_def led_inv_lightBlock led_inv_motionBlock led_inv_runWatchdog)

lemma led_inv_exec: "led_inv s \<Longrightarrow> led_inv (exec ts s)"
  by (induction ts arbitrary: s) (simp_all add: led_inv_loop)

lemma led_inv_setup: "led_inv (setup_sketch rs r)"
  by (simp add: led_inv_def setup_sketch_fields)

lemma checkLight_lastLdrCheck:
  "checkLight r (s\<lparr>lastLdrCheck := now\<rparr>) = (checkLight r s)\<lparr>lastLdrCheck := now\<rparr>"
  by (simp add: checkLight_def Let_def)

lemma lightBlock_leds:
  assumes "lightCheckDue now s"
  shows "ledsEnabled (lightBlock now r s) = (ledsEnabled s \<and> isDark (checkLight r s))"
    and "led_pin (lightBlock now r s) =
           (if ledsEnabled s \<and> \<not> isDark (checkLight r s) then False else led_pin s)"
  using assms
  by (auto simp add: lightBlock_def Let_def checkLight_lastLdrCheck checkLight_frame
      digitalWrite_LED_def)

lemma lightBlock_bright:
  assumes "lightCheckDue now s" and "\<not> isDark (lightBlock now r s)"
  shows "\<not> ledsEnabled (lightBlock now r s)"
    and "led_writes (new_events s (lightBlock now r s)) = (if ledsEnabled s then [False] else [])"
    and "ledsEnabled s \<Longrightarrow> \<not> led_pin (lightBlock now r s)"
proof -
  from assms have dark: "\<not> isDark (checkLight r s)"
    by (simp add: lightBlock_ring)
  from assms(1) dark show "\<not> ledsEnabled (lightBlock now r s)"
    by (simp add: lightBlock_leds)
  from assms(1) dark
  show "led_writes (new_events s (lightBlock now r s)) = (if ledsEnabled s then [False] else [])"
    by (simp add: new_events_def lightBlock_log)
  from assms(1) dark show "ledsEnabled s \<Longrightarrow> \<not> led_pin (lightBlock now r s)"
    by (simp add: lightBlock_leds)
qed

lemma motionBlock_skipped: "\<not> isDark s \<Longrightarrow> motionBlock t s = s"
  by (simp add: motionBlock_def)

lemma lightBlock_led_writes:
  "led_writes (new_events s (lightBlock now r s)) =
     (if lightCheckDue now s \<and> ledsEnabled s \<and> \<not> isDark (lightBlock now r s) then [False] else [])"
  by (cases "lightCheckDue now s")
     (simp_all add: new_events_def lightBlock_log lightBlock_ring)

lemma bright_pass:
  assumes "\<not> isDark (lightBlock (t_loop t) (ldr_reading t) s)"
    and "\<not> ledsEnabled (lightBlock (t_loop t) (ldr_reading t) s)"
  shows "\<not> ledsEnabled (loop t s)" and "True \<notin> set (led_writes (new_events s (loop t s)))"
proof -
  let ?s1 = "lightBlock (t_loop t) (ldr_reading t) s"
  from assms(1) have loop: "loop t s = runWatchdog (t_watchdog t) ?s1"
    by (simp add: loop_def motionBlock_skipped)
  with assms(2) show "\<not> ledsEnabled (loop t s)"
    by (simp add: runWatchdog_frame)
  have "io_log (loop t s) = io_log s @ new_events s ?s1 @ new_events ?s1 (loop t s)"
    by (simp add: loop new_events_def runWatchdog_log lightBlock_log)
  then have "new_events s (loop t s) = new_events s ?s1 @ new_events ?s1 (loop t s)"
    by (rule new_events_append)
  moreover have "led_writes (new_events ?s1 (loop t s)) =
      (if 30000 < t_watchdog t - lastWatchdogCheck ?s1 \<and> ledsEnabled ?s1 \<noteq> led_pin ?s1
       then [ledsEnabled ?s1] else [])"
    by (simp add: loop new_events_def runWatchdog_log)
  ultimately show "True \<notin> set (led_writes (new_events s (loop t s)))"
    using assms(2) by (simp add: lightBlock_led_writes)
qed

lemma loop_isDark: "isDark (loop t s) = isDark (lightBlock (t_loop t) (ldr_reading t) s)"
  by (simp add: loop_def runWatchdog_frame motionBlock_frame)

lemma led_inv_bright:
  assumes "led_inv s" and "\<not> isDark (lightBlock now r s)"
  shows "\<not> ledsEnabled (lightBlock now r s)"
  using led_inv_lightBlock [OF assms(1), of now r] assms(2) by (auto simp add: led_inv_def)

section \<open>The claims\<close>

text \<open>
  Claim C1 (hysteresis of the light classifier). In every state whose ring cursor is in
  range and whose threshold is far enough from the ends of the 16-bit range for
  \<open>threshold \<plusminus> hysteresis\<close> not to overflow (the sketch only uses 0 and 30), one call of
  \<^verbatim>\<open>checkLight\<close> with any reading behaves as follows, \<open>average\<close> being the average that
  this call computes: a dark classifier stays dark when the average lies strictly between
  \<open>threshold - hysteresis\<close> and \<open>threshold + hysteresis\<close>; it turns light only if
  \<open>average \<ge> threshold + hysteresis\<close> (and does so then); a light classifier turns dark
  only if \<open>average \<le> threshold - hysteresis\<close> (and does so then); and an average equal to
  the bare threshold never changes the classification.
\<close>

theorem checkLight_hysteresis:
  assumes "buffer_ok s"
    and "- 32748 \<le> sint (ldrThreshold s)" and "sint (ldrThreshold s) \<le> 32747"
  shows "(isDark s \<and> sint (ldrThreshold s) - sint hysteresis < sint (ldrAverage (checkLight r s))
            \<and> sint (ldrAverage (checkLight r s)) < sint (ldrThreshold s) + sint hysteresis
          \<longrightarrow> isDark (checkLight r s))
       \<and> (isDark s \<and> \<not> isDark (checkLight r s)
          \<longrightarrow> sint (ldrThreshold s) + sint hysteresis \<le> sint (ldrAverage (checkLight r s)))
       \<and> (isDark s \<and> sint (ldrThreshold s) + sint hysteresis \<le> sint (ldrAverage (checkLight r s))
          \<longrightarrow> \<not> isDark (checkLight r s))
       \<and> (\<not> isDark s \<and> isDark (checkLight r s)
          \<longrightarrow> sint (ldrAverage (checkLight r s)) \<le> sint (ldrThreshold s) - sint hysteresis)
       \<and> (\<not> isDark s \<and> sint (ldrAverage (checkLight r s)) \<le> sint (ldrThreshold s) - sint hysteresis
          \<longrightarrow> isDark (checkLight r s))
       \<and> (sint (ldrAverage (checkLight r s)) = sint (ldrThreshold s)
          \<longrightarrow> isDark (checkLight r s) = isDark s)"
proof -
  have h: "sint hysteresis = 20" by (simp add: hysteresis_def)
  show ?thesis
    using assms(2,3)
    by (simp add: checkLight_isDark word_sle_eq sint_minus_hysteresis sint_plus_hysteresis h)
qed

theorem checkLight_hysteresis_witness:
  "buffer_ok (setup_sketch (steady 0) 0) \<and> isDark (setup_sketch (steady 0) 0)
   \<and> sint (ldrThreshold (setup_sketch (steady 0) 0)) = 30
   \<and> sint (ldrAverage (checkLight 90 (setup_sketch (steady 0) 0))) = 30
   \<and> isDark (checkLight 90 (setup_sketch (steady 0) 0))
   \<and> sint (ldrAverage (checkLight 150 (setup_sketch (steady 0) 0))) = 50
   \<and> \<not> isDark (checkLight 150 (setup_sketch (steady 0) 0))
   \<and> buffer_ok (setup_sketch (steady 15) 15) \<and> \<not> isDark (setup_sketch (steady 15) 15)
   \<and> sint (ldrAverage (checkLight 60 (setup_sketch (steady 15) 15))) = 30
   \<and> \<not> isDark (checkLight 60 (setup_sketch (steady 15) 15))
   \<and> sint (ldrAverage (checkLight 0 (setup_sketch (steady 15) 15))) = 10
   \<and> isDark (checkLight 0 (setup_sketch (steady 15) 15))"
proof -
  let ?d = "setup_sketch (steady 0) 0"
  let ?l = "setup_sketch (steady 15) 15"
  have d: "buffer_ok ?d" "- 32748 \<le> sint (ldrThreshold ?d)" "sint (ldrThreshold ?d) \<le> 32747"
    by code_simp+
  have l: "buffer_ok ?l" "- 32748 \<le> sint (ldrThreshold ?l)" "sint (ldrThreshold ?l) \<le> 32747"
    by code_simp+
  have e: "isDark ?d" "sint (ldrThreshold ?d) = 30" "sint (ldrThreshold ?l) = 30"
    "sint (ldrAverage (checkLight 90 ?d)) = 30" "sint (ldrAverage (checkLight 150 ?d)) = 50"
    "\<not> isDark ?l" "sint (ldrAverage (checkLight 60 ?l)) = 30"
    "sint (ldrAverage (checkLight 0 ?l)) = 10" "sint hysteresis = 20"
    by code_simp+
  from checkLight_hysteresis [OF d, of 90] checkLight_hysteresis [OF d, of 150]
    checkLight_hysteresis [OF l, of 60] checkLight_hysteresis [OF l, of 0]
  show ?thesis
    by (simp add: d l e)
qed

text \<open>
  Claim C2, as stated (the average after \<open>N\<close> insertions is the mean of the last
  \<open>min N 3\<close> inserted readings), fails during the first two insertions: the array was
  filled by \<^verbatim>\<open>setup\<close> and the sum is always divided by 3. After the fill with three
  readings 0, the first insertion, of 30, gives the average 10, not 30.
\<close>

theorem ring_buffer_average_counterexample:
  "sint (ldrAverage (setup_sketch (steady 0) 30)) = 10 \<and> spec_average (map sint [30 :: c_int]) = 30"
  by code_simp

text \<open>
  Claim C2, amended. With every analog reading in the converter's range 0..1023: in every
  state that the sketch reaches (\<^verbatim>\<open>setup\<close>, then any number of passes of \<^verbatim>\<open>loop\<close>),
  \<open>ldrAverage\<close> is the sum of the last three values returned by \<^verbatim>\<open>analogRead\<close>, those of
  the fill loop of \<^verbatim>\<open>setup\<close> included, divided by 3 with the quotient truncated. From the
  third insertion on these are the last three inserted readings.
\<close>

theorem ring_buffer_average:
  assumes "adc_range (rs 0)" and "adc_range (rs 1)" and "adc_range (rs 2)" and "adc_range r"
    and "\<forall>t \<in> set ts. adc_range (ldr_reading t)"
  shows "sint (ldrAverage (exec ts (setup_sketch rs r))) =
           sum_list (map sint (last_n 3 (analog_readings (io_log (exec ts (setup_sketch rs r))))))
             div 3"
  by (intro avg_inv_average avg_inv_exec avg_inv_setup assms)

theorem ring_buffer_average_witness:
  "adc_range (steady 0 0) \<and> adc_range (steady 0 1) \<and> adc_range (steady 0 2) \<and> adc_range 30
   \<and> adc_range 60
   \<and> analog_readings (io_log (exec [\<lparr>t_loop = 1000, ldr_reading = 60, t_motion = 1000,
          pir_samples = steady False, t_watchdog = 1200\<rparr>] (setup_sketch (steady 0) 30)))
       = [0, 0, 0, 30, 60]
   \<and> sint (ldrAverage (exec [\<lparr>t_loop = 1000, ldr_reading = 60, t_motion = 1000,
          pir_samples = steady False, t_watchdog = 1200\<rparr>] (setup_sketch (steady 0) 30))) = 30"
proof -
  let ?t = "\<lparr>t_loop = 1000, ldr_reading = 60, t_motion = 1000,
             pir_samples = steady False, t_watchdog = 1200\<rparr>"
  have r: "adc_range (steady 0 0)" "adc_range (steady 0 1)" "adc_range (steady 0 2)"
    "adc_range 30"
    by (simp_all add: adc_range_def steady_def)
  have t: "\<forall>t \<in> set [?t]. adc_range (ldr_reading t)"
    by (simp add: adc_range_def)
  have e: "analog_readings (io_log (exec [?t] (setup_sketch (steady 0) 30))) = [0, 0, 0, 30, 60]"
    by code_simp
  have "sint (ldrAverage (exec [?t] (setup_sketch (steady 0) 30))) = 30"
    unfolding ring_buffer_average [OF r t] e by (simp add: last_n_def)
  moreover have "adc_range 60" by (simp add: adc_range_def)
  ultimately show ?thesis using r e by (intro conjI)
qed

text \<open>
  Claim C4 (timeout boundary of a motion cycle). A cycle starts at time \<open>t0\<close> when
  \<^verbatim>\<open>checkMotion\<close>, called while no motion is recorded, debounces a positive reading. Let
  any calls follow that lie less than 5000 ms after \<open>t0\<close> and do not extend the cycle (none
  of them at 4000 ms or later sees a positive debounced reading). Then a call at a time
  \<open>t\<close> not before \<open>t0\<close> leaves \<open>motionDetected\<close> true exactly if \<open>t - t0 < 5000\<close>: true at
  4999 ms, false at 5000 ms and at every later time. For \<open>t0 = 0\<close> every \<open>t\<close> qualifies.
\<close>

theorem motion_timeout_boundary:
  assumes "\<not> motionDetected s" and "debounceMotion p0"
    and "\<forall>c \<in> set cs. t0 \<le> fst c \<and> fst c - t0 < 5000 \<and>
           \<not> (4000 \<le> fst c - t0 \<and> debounceMotion (snd c))"
    and "t0 \<le> t"
  shows "motionDetected (checkMotion t p (motion_calls cs (checkMotion t0 p0 s)))
           \<longleftrightarrow> t - t0 < 5000"
proof -
  let ?s1 = "checkMotion t0 p0 s"
  from assms(1,2) have s1: "motionDetected ?s1" "motionStartTime ?s1 = t0"
    by (rule checkMotion_start)+
  with assms(3) have "motionDetected (motion_calls cs ?s1) \<and>
      motionStartTime (motion_calls cs ?s1) = motionStartTime ?s1"
    by (intro motion_calls_active) simp_all
  with s1 assms(4) show ?thesis by (simp add: checkMotion_active)
qed

theorem motion_timeout_boundary_witness:
  "\<not> motionDetected (setup_sketch (steady 0) 0) \<and> debounceMotion (steady True)
   \<and> \<not> debounceMotion (steady False)
   \<and> motionDetected (checkMotion 4999 (steady False)
        (motion_calls [(2000, steady True), (4500, steady False)]
          (checkMotion 0 (steady True) (setup_sketch (steady 0) 0))))
   \<and> \<not> motionDetected (checkMotion 5000 (steady True)
        (motion_calls [(2000, steady True), (4500, steady False)]
          (checkMotion 0 (steady True) (setup_sketch (steady 0) 0))))"
proof -
  let ?s = "setup_sketch (steady 0) 0"
  let ?cs = "[(2000 :: c_ulong, steady True), (4500, steady False)]"
  have s: "\<not> motionDetected ?s" by code_simp
  have p: "debounceMotion (steady True)" "\<not> debounceMotion (steady False)" by code_simp+
  have cs: "\<forall>c \<in> set ?cs. 0 \<le> fst c \<and> fst c - 0 < 5000 \<and>
      \<not> (4000 \<le> fst c - 0 \<and> debounceMotion (snd c))"
    by (simp add: p)
  from motion_timeout_boundary [OF s p(1) cs, of 4999 "steady False"]
    motion_timeout_boundary [OF s p(1) cs, of 5000 "steady True"]
  show ?thesis by (simp add: s p)
qed

text \<open>
  Claim C5 (clock-rollover guard). Whenever \<^verbatim>\<open>millis()\<close> is below the stored
  \<open>motionStartTime\<close>, \<^verbatim>\<open>checkMotion\<close> leaves \<open>motionStartTime\<close> equal to the current
  timestamp, and a recorded motion stays recorded: with \<open>motionDetected\<close> true the call
  changes nothing but that stamp.
\<close>

theorem rollover_guard:
  assumes "now < motionStartTime s"
  shows "motionStartTime (checkMotion now p s) = now
       \<and> (motionDetected s \<longrightarrow> motionDetected (checkMotion now p s))
       \<and> (motionDetected s \<longrightarrow> checkMotion now p s = s\<lparr>motionStartTime := now\<rparr>)"
  using assms
  by (simp add: checkMotion_def debugStamp_def Let_def to_ulong_consts)

theorem rollover_guard_witness:
  "motionDetected (checkMotion 4294960000 (steady True) (setup_sketch (steady 0) 0))
   \<and> (100 :: c_ulong) < motionStartTime (checkMotion 4294960000 (steady True) (setup_sketch (steady 0) 0))
   \<and> motionStartTime (checkMotion 100 (steady False)
        (checkMotion 4294960000 (steady True) (setup_sketch (steady 0) 0))) = 100
   \<and> motionDetected (checkMotion 100 (steady False)
        (checkMotion 4294960000 (steady True) (setup_sketch (steady 0) 0)))"
proof -
  let ?s = "checkMotion 4294960000 (steady True) (setup_sketch (steady 0) 0)"
  have d: "motionDetected ?s" by code_simp
  have r: "(100 :: c_ulong) < motionStartTime ?s" by code_simp
  from rollover_guard [OF r, of "steady False"] show ?thesis by (simp add: d r)
qed

text \<open>
  Claim C3 (adaptive cadence). In every state that the sketch reaches (\<^verbatim>\<open>setup\<close>, then
  any passes of \<^verbatim>\<open>loop\<close>): the check interval is the fast or the slow one; it is the slow
  one only if, since the last dark classification, at least five non-dark classifications
  were made while the interval was the fast one (\<open>fast_light_streak\<close> counts them); and a
  classification from that state that leaves \<open>isDark\<close> true leaves
  \<open>consecutiveLightReadings\<close> at 0 and the interval at the fast one.
\<close>

theorem adaptive_cadence:
  "(currentLdrInterval (exec ts (setup_sketch rs r)) = LDR_SLOW_INTERVAL
      \<longrightarrow> 5 \<le> fast_light_streak ts (setup_sketch rs r) 0)
   \<and> (currentLdrInterval (exec ts (setup_sketch rs r)) = LDR_FAST_INTERVAL \<or>
      currentLdrInterval (exec ts (setup_sketch rs r)) = LDR_SLOW_INTERVAL)
   \<and> (lightCheckDue now (exec ts (setup_sketch rs r)) \<and>
      isDark (lightBlock now x (exec ts (setup_sketch rs r)))
      \<longrightarrow> consecutiveLightReadings (lightBlock now x (exec ts (setup_sketch rs r))) = 0 \<and>
          currentLdrInterval (lightBlock now x (exec ts (setup_sketch rs r))) = LDR_FAST_INTERVAL)"
proof -
  let ?s = "exec ts (setup_sketch rs r)"
  have inv: "cadence_inv ?s (fast_light_streak ts (setup_sketch rs r) 0)"
    by (intro cadence_inv_exec cadence_inv_setup)
  then have 1: "currentLdrInterval ?s = LDR_SLOW_INTERVAL
      \<longrightarrow> 5 \<le> fast_light_streak ts (setup_sketch rs r) 0"
    using intervals_differ by (auto simp add: cadence_inv_def)
  from inv have 2: "currentLdrInterval ?s = LDR_FAST_INTERVAL \<or>
      currentLdrInterval ?s = LDR_SLOW_INTERVAL"
    by (auto simp add: cadence_inv_def)
  from 2 have 3: "lightCheckDue now ?s \<and> isDark (lightBlock now x ?s)
      \<longrightarrow> consecutiveLightReadings (lightBlock now x ?s) = 0 \<and>
          currentLdrInterval (lightBlock now x ?s) = LDR_FAST_INTERVAL"
    by (auto simp add: lightBlock_cadence)
  from 1 2 3 show ?thesis by (intro conjI)
qed

theorem adaptive_cadence_witness:
  "currentLdrInterval (exec [tick_at 1000 11 False, tick_at 2000 11 False, tick_at 3000 11 False,
       tick_at 4000 11 False] (setup_sketch (steady 11) 11)) = LDR_FAST_INTERVAL
   \<and> currentLdrInterval (exec [tick_at 1000 11 False, tick_at 2000 11 False,
       tick_at 3000 11 False, tick_at 4000 11 False, tick_at 5000 11 False]
       (setup_sketch (steady 11) 11)) = LDR_SLOW_INTERVAL
   \<and> fast_light_streak [tick_at 1000 11 False, tick_at 2000 11 False, tick_at 3000 11 False,
       tick_at 4000 11 False, tick_at 5000 11 False] (setup_sketch (steady 11) 11) 0 = 5
   \<and> lightCheckDue 15000 (exec [tick_at 1000 11 False, tick_at 2000 11 False,
       tick_at 3000 11 False, tick_at 4000 11 False, tick_at 5000 11 False]
       (setup_sketch (steady 11) 11))
   \<and> isDark (lightBlock 15000 0 (exec [tick_at 1000 11 False, tick_at 2000 11 False,
       tick_at 3000 11 False, tick_at 4000 11 False, tick_at 5000 11 False]
       (setup_sketch (steady 11) 11)))
   \<and> consecutiveLightReadings (lightBlock 15000 0 (exec [tick_at 1000 11 False,
       tick_at 2000 11 False, tick_at 3000 11 False, tick_at 4000 11 False, tick_at 5000 11 False]
       (setup_sketch (steady 11) 11))) = 0
   \<and> currentLdrInterval (lightBlock 15000 0 (exec [tick_at 1000 11 False,
       tick_at 2000 11 False, tick_at 3000 11 False, tick_at 4000 11 False, tick_at 5000 11 False]
       (setup_sketch (steady 11) 11))) = LDR_FAST_INTERVAL"
proof -
  let ?ts = "[tick_at 1000 11 False, tick_at 2000 11 False, tick_at 3000 11 False,
       tick_at 4000 11 False, tick_at 5000 11 False]"
  let ?R = "exec ?ts (setup_sketch (steady 11) 11)"
  have e: "currentLdrInterval (exec [tick_at 1000 11 False, tick_at 2000 11 False,
       tick_at 3000 11 False, tick_at 4000 11 False] (setup_sketch (steady 11) 11))
       = LDR_FAST_INTERVAL"
    "currentLdrInterval ?R = LDR_SLOW_INTERVAL"
    "fast_light_streak ?ts (setup_sketch (steady 11) 11) 0 = 5"
    "lightCheckDue 15000 ?R" "isDark (lightBlock 15000 0 ?R)"
    by code_simp+
  from adaptive_cadence [of ?ts "steady 11" 11 15000 0] e(4,5)
  have "consecutiveLightReadings (lightBlock 15000 0 ?R) = 0"
    "currentLdrInterval (lightBlock 15000 0 ?R) = LDR_FAST_INTERVAL"
    by blast+
  with e show ?thesis by (intro conjI)
qed

text \<open>
  Claim C6 (bright forces the LEDs off before the motion block). In a pass whose light check
  runs and classifies the room as not dark, the first block of \<^verbatim>\<open>loop\<close> leaves
  \<open>ledsEnabled\<close> false and, if it was true, writes the pin low, once; the motion and
  actuator block that follows does nothing in any state with \<open>isDark\<close> false; so at the
  end of such a pass the LEDs are off and no high level was written. From a state the
  sketch reaches, the same holds for every pass that ends with \<open>isDark\<close> false, whether or
  not the light was checked in it.
\<close>

theorem bright_forces_leds_off:
  "(lightCheckDue (t_loop t) s \<and> \<not> isDark (lightBlock (t_loop t) (ldr_reading t) s) \<longrightarrow>
      \<not> ledsEnabled (lightBlock (t_loop t) (ldr_reading t) s) \<and>
      led_writes (new_events s (lightBlock (t_loop t) (ldr_reading t) s))
        = (if ledsEnabled s then [False] else []) \<and>
      (ledsEnabled s \<longrightarrow> \<not> led_pin (lightBlock (t_loop t) (ldr_reading t) s)))
   \<and> (\<not> isDark s' \<longrightarrow> motionBlock t s' = s')
   \<and> (lightCheckDue (t_loop t) s \<and> \<not> isDark (lightBlock (t_loop t) (ldr_reading t) s) \<longrightarrow>
      \<not> ledsEnabled (loop t s) \<and> True \<notin> set (led_writes (new_events s (loop t s))))
   \<and> (\<not> isDark (loop t (exec ts (setup_sketch rs r))) \<longrightarrow>
      \<not> ledsEnabled (loop t (exec ts (setup_sketch rs r))) \<and>
      True \<notin> set (led_writes (new_events (exec ts (setup_sketch rs r))
                                (loop t (exec ts (setup_sketch rs r))))))"
proof -
  let ?R = "exec ts (setup_sketch rs r)"
  have inv: "led_inv ?R" by (intro led_inv_exec led_inv_setup)
  have 4: "\<not> isDark (loop t ?R) \<longrightarrow>
      \<not> ledsEnabled (loop t ?R) \<and> True \<notin> set (led_writes (new_events ?R (loop t ?R)))"
    using bright_pass [of t ?R] led_inv_bright [OF inv, of "t_loop t" "ldr_reading t"]
    by (simp add: loop_isDark)
  have 3: "lightCheckDue (t_loop t) s \<and> \<not> isDark (lightBlock (t_loop t) (ldr_reading t) s) \<longrightarrow>
      \<not> ledsEnabled (loop t s) \<and> True \<notin> set (led_writes (new_events s (loop t s)))"
    using bright_pass [of t s] lightBlock_bright(1) [of "t_loop t" s "ldr_reading t"]
    by blast
  have 1: "lightCheckDue (t_loop t) s \<and> \<not> isDark (lightBlock (t_loop t) (ldr_reading t) s) \<longrightarrow>
      \<not> ledsEnabled (lightBlock (t_loop t) (ldr_reading t) s) \<and>
      led_writes (new_events s (lightBlock (t_loop t) (ldr_reading t) s))
        = (if ledsEnabled s then [False] else []) \<and>
      (ledsEnabled s \<longrightarrow> \<not> led_pin (lightBlock (t_loop t) (ldr_reading t) s))"
    using lightBlock_bright [of "t_loop t" s "ldr_reading t"] by blast
  have 2: "\<not> isDark s' \<longrightarrow> motionBlock t s' = s'"
    by (simp add: motionBlock_skipped)
  from 1 2 3 4 show ?thesis by (intro conjI)
qed

theorem bright_forces_leds_off_witness:
  "ledsEnabled (exec [tick_at 1000 0 True] (setup_sketch (steady 0) 0))
   \<and> lightCheckDue (t_loop (tick_at 2000 1023 True))
        (exec [tick_at 1000 0 True] (setup_sketch (steady 0) 0))
   \<and> debounceMotion (pir_samples (tick_at 2000 1023 True))
   \<and> \<not> isDark (loop (tick_at 2000 1023 True)
        (exec [tick_at 1000 0 True] (setup_sketch (steady 0) 0)))
   \<and> \<not> ledsEnabled (loop (tick_at 2000 1023 True)
        (exec [tick_at 1000 0 True] (setup_sketch (steady 0) 0)))
   \<and> True \<notin> set (led_writes (new_events (exec [tick_at 1000 0 True] (setup_sketch (steady 0) 0))
        (loop (tick_at 2000 1023 True) (exec [tick_at 1000 0 True] (setup_sketch (steady 0) 0)))))
   \<and> led_writes (new_events (exec [tick_at 1000 0 True] (setup_sketch (steady 0) 0))
        (lightBlock 2000 1023 (exec [tick_at 1000 0 True] (setup_sketch (steady 0) 0)))) = [False]"
proof -
  let ?s = "exec [tick_at 1000 0 True] (setup_sketch (steady 0) 0)"
  let ?t = "tick_at 2000 1023 True"
  have e: "ledsEnabled ?s" "lightCheckDue (t_loop ?t) ?s" "debounceMotion (pir_samples ?t)"
    "\<not> isDark (loop ?t ?s)" "\<not> isDark (lightBlock (t_loop ?t) (ldr_reading ?t) ?s)"
    "t_loop ?t = 2000" "ldr_reading ?t = 1023"
    by code_simp+
  from bright_forces_leds_off [of ?t ?s ?s "[tick_at 1000 0 True]" "steady 0" 0] e(1,2,4,5)
  have "\<not> ledsEnabled (loop ?t ?s)"
    "True \<notin> set (led_writes (new_events ?s (loop ?t ?s)))"
    "led_writes (new_events ?s (lightBlock (t_loop ?t) (ldr_reading ?t) ?s)) = [False]"
    by simp_all
  with e show ?thesis by (simp only: simp_thms)
qed




text \<open>
  Claim C8 (the watchdog only repairs). A call of \<^verbatim>\<open>runWatchdog\<close> changes nothing but its
  stamp \<open>lastWatchdogCheck\<close>, the level of the pin and the log; \<open>ledsEnabled\<close> is as before.
  It writes the pin exactly when more than 30000 ms have passed since its stamp and the pin
  level differs from \<open>ledsEnabled\<close>; the write, a single one, sets the pin to
  \<open>ledsEnabled\<close>. After a call that made its check at time \<open>now\<close>, a call at a time
  \<open>now'\<close> with \<open>now' - now \<le> 30000\<close> changes nothing, whatever happened to the pin and
  to the rest of the state in between.
\<close>

theorem watchdog_corrective:
  "runWatchdog now s = s\<lparr>lastWatchdogCheck := lastWatchdogCheck (runWatchdog now s),
                         led_pin := led_pin (runWatchdog now s),
                         io_log := io_log (runWatchdog now s)\<rparr>
   \<and> ledsEnabled (runWatchdog now s) = ledsEnabled s
   \<and> new_events s (runWatchdog now s) =
        (if 30000 < now - lastWatchdogCheck s \<and> led_pin s \<noteq> ledsEnabled s
         then [LedWrite (ledsEnabled s)] else [])
   \<and> (new_events s (runWatchdog now s) \<noteq> []
        \<longrightarrow> led_pin s \<noteq> ledsEnabled s \<and> led_pin (runWatchdog now s) = ledsEnabled s)
   \<and> led_pin (runWatchdog now s) =
        (if 30000 < now - lastWatchdogCheck s \<and> led_pin s \<noteq> ledsEnabled s
         then ledsEnabled s else led_pin s)
   \<and> (30000 < now - lastWatchdogCheck s \<and>
       lastWatchdogCheck s' = lastWatchdogCheck (runWatchdog now s) \<and> now' - now \<le> 30000
        \<longrightarrow> runWatchdog now' s' = s')"
proof -
  have 1: "runWatchdog now s = s\<lparr>lastWatchdogCheck := lastWatchdogCheck (runWatchdog now s),
                         led_pin := led_pin (runWatchdog now s),
                         io_log := io_log (runWatchdog now s)\<rparr>"
    by (simp add: runWatchdog_def digitalWrite_LED_def Let_def)
  have 2: "new_events s (runWatchdog now s) =
        (if 30000 < now - lastWatchdogCheck s \<and> led_pin s \<noteq> ledsEnabled s
         then [LedWrite (ledsEnabled s)] else [])"
    by (rule new_events_append) (auto simp add: runWatchdog_log)
  have 3: "30000 < now - lastWatchdogCheck s \<and>
       lastWatchdogCheck s' = lastWatchdogCheck (runWatchdog now s) \<and> now' - now \<le> 30000
        \<longrightarrow> runWatchdog now' s' = s'"
    by (auto simp add: runWatchdog_stamp intro!: runWatchdog_idle)
  show ?thesis
    using 1 3 by (simp add: 2 runWatchdog_pin runWatchdog_frame)
qed

theorem watchdog_corrective_witness:
  "led_pin ((setup_sketch (steady 0) 0)\<lparr>led_pin := True\<rparr>)
     \<noteq> ledsEnabled ((setup_sketch (steady 0) 0)\<lparr>led_pin := True\<rparr>)
   \<and> new_events ((setup_sketch (steady 0) 0)\<lparr>led_pin := True\<rparr>)
        (runWatchdog 30001 ((setup_sketch (steady 0) 0)\<lparr>led_pin := True\<rparr>)) = [LedWrite False]
   \<and> led_pin (runWatchdog 30001 ((setup_sketch (steady 0) 0)\<lparr>led_pin := True\<rparr>))
       = ledsEnabled ((setup_sketch (steady 0) 0)\<lparr>led_pin := True\<rparr>)
   \<and> runWatchdog 60001
        ((runWatchdog 30001 ((setup_sketch (steady 0) 0)\<lparr>led_pin := True\<rparr>))\<lparr>led_pin := True\<rparr>)
       = (runWatchdog 30001 ((setup_sketch (steady 0) 0)\<lparr>led_pin := True\<rparr>))\<lparr>led_pin := True\<rparr>"
proof -
  let ?s = "(setup_sketch (steady 0) 0)\<lparr>led_pin := True\<rparr>"
  let ?s' = "(runWatchdog 30001 ?s)\<lparr>led_pin := True\<rparr>"
  have e: "led_pin ?s \<noteq> ledsEnabled ?s" "(30000 :: c_ulong) < 30001 - lastWatchdogCheck ?s"
    "lastWatchdogCheck ?s' = lastWatchdogCheck (runWatchdog 30001 ?s)"
    "(60001 :: c_ulong) - 30001 \<le> 30000" "\<not> ledsEnabled ?s"
    by code_simp+
  from watchdog_corrective [of 30001 ?s ?s' 60001] e
  have "new_events ?s (runWatchdog 30001 ?s) = [LedWrite False]"
    "led_pin (runWatchdog 30001 ?s) = ledsEnabled ?s"
    "runWatchdog 60001 ?s' = ?s'"
    by simp_all
  with e(1) show ?thesis by (intro conjI)
qed

text \<open>
  Claim C9 (the actuator step elides writes). The actuator step of \<^verbatim>\<open>loop\<close> writes the
  LED pin exactly when the desired state, \<open>motionDetected\<close>, differs from \<open>ledsEnabled\<close>,
  and then once, with the desired level; afterwards \<open>ledsEnabled\<close> equals
  \<open>motionDetected\<close>. With the two equal the step changes nothing, so running it again on
  its own result adds no write. In a pass the step runs only while \<open>isDark\<close> holds, after
  \<^verbatim>\<open>checkMotion\<close>: the motion block writes the pin only under that condition.
\<close>

theorem actuator_write_elision:
  "new_events s (ledBlock now s) =
     (if ledsEnabled s \<noteq> motionDetected s then [LedWrite (motionDetected s)] else [])
   \<and> ledsEnabled (ledBlock now s) = motionDetected s
   \<and> (ledsEnabled s = motionDetected s \<longrightarrow> ledBlock now s = s)
   \<and> ledBlock now' (ledBlock now s) = ledBlock now s
   \<and> led_writes (new_events s (motionBlock t s)) =
       (if isDark s \<and>
           ledsEnabled s \<noteq> motionDetected (checkMotion (t_motion t) (pir_samples t) s)
        then [motionDetected (checkMotion (t_motion t) (pir_samples t) s)] else [])"
proof -
  have 1: "new_events s (ledBlock now s) =
     (if ledsEnabled s \<noteq> motionDetected s then [LedWrite (motionDetected s)] else [])"
    by (rule new_events_append) (simp add: ledBlock_effect)
  have 2: "ledBlock now' (ledBlock now s) = ledBlock now s"
    by (rule ledBlock_elided) (simp add: ledBlock_effect ledBlock_frame)
  have 3: "led_writes (new_events s (motionBlock t s)) =
       (if isDark s \<and>
           ledsEnabled s \<noteq> motionDetected (checkMotion (t_motion t) (pir_samples t) s)
        then [motionDetected (checkMotion (t_motion t) (pir_samples t) s)] else [])"
    by (simp add: motionBlock_def new_events_def ledBlock_effect checkMotion_frame)
  show ?thesis
    using 2 by (simp add: 1 3 ledBlock_effect ledBlock_elided)
qed

theorem actuator_write_elision_witness:
  "\<not> ledsEnabled (checkMotion 1000 (steady True) (setup_sketch (steady 0) 0))
   \<and> motionDetected (checkMotion 1000 (steady True) (setup_sketch (steady 0) 0))
   \<and> new_events (checkMotion 1000 (steady True) (setup_sketch (steady 0) 0))
        (ledBlock 1000 (checkMotion 1000 (steady True) (setup_sketch (steady 0) 0)))
       = [LedWrite True]
   \<and> new_events (ledBlock 1000 (checkMotion 1000 (steady True) (setup_sketch (steady 0) 0)))
        (ledBlock 1300 (ledBlock 1000 (checkMotion 1000 (steady True) (setup_sketch (steady 0) 0))))
       = []"
proof -
  let ?s = "checkMotion 1000 (steady True) (setup_sketch (steady 0) 0)"
  have e: "\<not> ledsEnabled ?s" "motionDetected ?s" by code_simp+
  from actuator_write_elision [of ?s 1000 1300] e
  have "new_events ?s (ledBlock 1000 ?s) = [LedWrite True]"
    "ledBlock 1300 (ledBlock 1000 ?s) = ledBlock 1000 ?s"
    by simp_all
  with e show ?thesis by (simp add: new_events_def)
qed

text \<open>
  Claim C10 (the lockout needs the LEDs on). \<^verbatim>\<open>inLockoutPeriod\<close> holds only with
  \<open>ledsEnabled\<close> true. With \<open>ledsEnabled\<close> false, whatever \<open>ledOnTime\<close> holds, the light
  check is due exactly when the check interval has elapsed since the last check, and then
  the pass reads the light sensor.
\<close>

theorem lockout_needs_leds_on:
  "(inLockoutPeriod now s \<longrightarrow> ledsEnabled s)
   \<and> (\<not> ledsEnabled s \<longrightarrow>
        lightCheckDue now (s\<lparr>ledOnTime := stamp\<rparr>)
          = (to_ulong (currentLdrInterval s) \<le> now - lastLdrCheck s))
   \<and> (\<not> ledsEnabled s \<and> to_ulong (currentLdrInterval s) \<le> now - lastLdrCheck s \<longrightarrow>
        new_events s (lightBlock now r s) = [AnalogRead r])"
proof -
  have "\<not> ledsEnabled s \<and> to_ulong (currentLdrInterval s) \<le> now - lastLdrCheck s \<longrightarrow>
        new_events s (lightBlock now r s) = [AnalogRead r]"
    by (auto intro!: new_events_append
        simp add: lightBlock_def lightCheckDue_def inLockoutPeriod_def Let_def
          checkLight_def digitalWrite_LED_def)
  then show ?thesis
    by (simp add: inLockoutPeriod_def lightCheckDue_def)
qed

theorem lockout_needs_leds_on_witness:
  "\<not> ledsEnabled (exec [tick_at 1000 0 True, tick_at 7000 0 False] (setup_sketch (steady 0) 0))
   \<and> \<not> inLockoutPeriod 8000
        ((exec [tick_at 1000 0 True, tick_at 7000 0 False] (setup_sketch (steady 0) 0))
           \<lparr>ledOnTime := 7999\<rparr>)
   \<and> lightCheckDue 8000
        ((exec [tick_at 1000 0 True, tick_at 7000 0 False] (setup_sketch (steady 0) 0))
           \<lparr>ledOnTime := 7999\<rparr>)
   \<and> new_events (exec [tick_at 1000 0 True, tick_at 7000 0 False] (setup_sketch (steady 0) 0))
        (lightBlock 8000 5
          (exec [tick_at 1000 0 True, tick_at 7000 0 False] (setup_sketch (steady 0) 0)))
       = [AnalogRead 5]"
proof -
  let ?s = "exec [tick_at 1000 0 True, tick_at 7000 0 False] (setup_sketch (steady 0) 0)"
  have e: "\<not> ledsEnabled ?s" "to_ulong (currentLdrInterval ?s) \<le> 8000 - lastLdrCheck ?s"
    "ledsEnabled (?s\<lparr>ledOnTime := 7999\<rparr>) = ledsEnabled ?s"
    by code_simp+
  from lockout_needs_leds_on [of 8000 "?s\<lparr>ledOnTime := 7999\<rparr>"]
  have 1: "\<not> inLockoutPeriod 8000 (?s\<lparr>ledOnTime := 7999\<rparr>)"
    using e by blast
  from lockout_needs_leds_on [of 8000 ?s 7999 5] e
  have "lightCheckDue 8000 (?s\<lparr>ledOnTime := 7999\<rparr>)"
    "new_events ?s (lightBlock 8000 5 ?s) = [AnalogRead 5]"
    by simp_all
  with e(1) 1 show ?thesis by (intro conjI)
qed

end
